theory Spec2Isabelle
  imports Main "HOL-Library.AList"
begin

section \<open>Graph snapshot diffs (cyclic-dependency-graph/diff.js)\<close>

text \<open>
  The values stored in a snapshot are JavaScript values. The model keeps the primitive
  values whose truthiness differs, and Immutable lists as the collection whose equality
  under \<open>Immutable.is\<close> is structural. Numbers are integers.
\<close>

datatype jsval =
    JUndefined
  | JNull
  | JBool bool
  | JNum int
  | JStr string
  | JList "jsval list"

text \<open>JavaScript truthiness, as tested by \<open>fromValue && ...\<close>.\<close>

fun truthy :: "jsval \<Rightarrow> bool" where
  "truthy JUndefined = False"
| "truthy JNull = False"
| "truthy (JBool b) = b"
| "truthy (JNum n) = (n \<noteq> 0)"
| "truthy (JStr s) = (s \<noteq> [])"
| "truthy (JList vs) = True"

text \<open>\<open>Immutable.is\<close>: value equality, structural on Immutable collections.\<close>

definition is_imm :: "jsval \<Rightarrow> jsval \<Rightarrow> bool" where
  "is_imm a b = (a = b)"

text \<open>
  A snapshot is an Immutable Map from keys to values: the list of its entries in the
  order \<open>forEach\<close> visits them.
\<close>

type_synonym snapshot = "(string \<times> jsval) list"

definition has :: "snapshot \<Rightarrow> string \<Rightarrow> bool" where
  "has m k = (k \<in> fst ` set m)"

text \<open>\<open>Map.get\<close> answers \<open>undefined\<close> for a key the map does not hold.\<close>

definition get :: "snapshot \<Rightarrow> string \<Rightarrow> jsval" where
  "get m k = (case map_of m k of None \<Rightarrow> JUndefined | Some v \<Rightarrow> v)"

record diff =
  diff_from :: snapshot
  diff_to :: snapshot

definition Diff :: "snapshot \<Rightarrow> snapshot \<Rightarrow> diff" where
  "Diff f t = \<lparr>diff_from = f, diff_to = t\<rparr>"

definition mergeDiffs :: "diff \<Rightarrow> diff \<Rightarrow> diff" where
  "mergeDiffs diff1 diff2 = Diff (diff_from diff1) (diff_to diff2)"

definition getNewNodesFromDiff :: "diff \<Rightarrow> string list" where
  "getNewNodesFromDiff d =
     map fst (filter (\<lambda>(key, v). \<not> has (diff_from d) key) (diff_to d))"

definition getPrunedNodesFromDiff :: "diff \<Rightarrow> string list" where
  "getPrunedNodesFromDiff d =
     map fst (filter (\<lambda>(key, v). \<not> has (diff_to d) key) (diff_from d))"

definition getChangedNodes :: "diff \<Rightarrow> string list" where
  "getChangedNodes d =
     map fst (filter (\<lambda>(key, toValue).
        let fromValue = get (diff_from d) key
        in truthy fromValue \<and> \<not> is_imm toValue fromValue) (diff_to d))"

section \<open>The file system cache and its traps (file_system/cache.js)\<close>

subsection \<open>Data\<close>

type_synonym path = string

text \<open>
  The \<open>fs.Stats\<close> object of an event or of the storage backend: \<open>stat.isFile()\<close> and
  \<open>stat.mtime.getTime()\<close>.
\<close>

record stat_info =
  st_isFile :: bool
  st_mtime :: int

text \<open>
  A \<open>File\<close> object. JavaScript compares files by reference (\<open>file !== this.files[...]\<close>):
  \<open>file_ref\<close> is the reference, taken from a counter at each \<open>new File\<close>. The three
  cells are the values \<open>_createFile\<close> and \<open>_handleFileRemoved\<close> hand to the setters.
\<close>

record File =
  file_ref :: nat
  file_path :: path
  cell_stat :: "stat_info option"
  cell_isFile :: "bool option"
  cell_modifiedTime :: "int option"

text \<open>
  A binding object, the value of an entry of \<open>trap.bindings\<close>; \<open>None\<close> is the
  \<open>undefined\<close> of a field never written.
\<close>

record binding =
  b_isFile :: "bool option"
  b_modifiedTime :: "int option"
  b_textHash :: "string option"

definition empty_binding :: binding where
  "empty_binding = \<lparr>b_isFile = None, b_modifiedTime = None, b_textHash = None\<rparr>"

text \<open>
  A \<open>FileSystemTrap\<close>. \<open>bindings\<close> keeps its keys in insertion order, the order of
  \<open>for (const path in trap.bindings)\<close>. Its values are references to binding objects:
  the callbacks of the trap write the fields of the object in place, and
  \<open>rehydrateTrap\<close> stores the objects it is given, so two traps can hold the same
  object.
\<close>

record trap =
  bindings :: "(path \<times> nat) list"
  boundFiles :: "path \<rightharpoonup> bool"
  triggerOnChange :: "path \<rightharpoonup> bool"

definition empty_trap :: trap where
  "empty_trap = \<lparr>bindings = [], boundFiles = Map.empty, triggerOnChange = Map.empty\<rparr>"

datatype cause = Added | Changed | Removed

text \<open>The object pushed on \<open>trapTriggered\<close>.\<close>

record notification =
  n_trap :: nat
  n_path :: path
  n_cause :: cause

text \<open>
  The cache together with the traps it created. \<open>files\<close> and \<open>trapsByFile\<close> are the
  cache's own tables: a path of \<open>files\<close> is absent (\<open>None\<close>), \<open>null\<close> (\<open>Some None\<close>)
  or a file; an entry of \<open>trapsByFile\<close> is a JavaScript \<open>Set\<close> of traps, the list of
  its elements in insertion order. \<open>traps\<close> is the store of trap objects and
  \<open>objects\<close> the store of binding objects, by reference. \<open>trapTriggered\<close> is the
  sequence of notifications pushed so far.
\<close>

record state =
  files :: "path \<rightharpoonup> File option"
  trapsByFile :: "path \<rightharpoonup> nat list"
  trapTriggered :: "notification list"
  traps :: "nat \<Rightarrow> trap"
  objects :: "nat \<Rightarrow> binding"
  next_trap :: nat
  next_file :: nat
  next_object :: nat

definition init :: state where
  "init = \<lparr>files = Map.empty, trapsByFile = Map.empty, trapTriggered = [],
            traps = (\<lambda>t. empty_trap), objects = (\<lambda>r. empty_binding),
            next_trap = 0, next_file = 0, next_object = 0\<rparr>"

text \<open>
  \<open>trap.bindings[path]\<close>: the reference the trap holds for the path, and the binding
  object behind it.
\<close>

definition bindingRef :: "state \<Rightarrow> nat \<Rightarrow> path \<Rightarrow> nat option" where
  "bindingRef s t p = map_of (bindings (traps s t)) p"

definition bindingOf :: "state \<Rightarrow> nat \<Rightarrow> path \<Rightarrow> binding option" where
  "bindingOf s t p = map_option (objects s) (bindingRef s t p)"

datatype js_error = TypeError

text \<open>
  What a synchronous call does: it returns, or it throws, and the state is the one the
  call had reached at that point.
\<close>

datatype outcome = Returns state | Throws js_error state

fun state_of :: "outcome \<Rightarrow> state" where
  "state_of (Returns s) = s"
| "state_of (Throws e s) = s"

subsection \<open>FileSystemCache\<close>

text \<open>\<open>Set.add\<close> and \<open>Set.delete\<close>.\<close>

definition set_add :: "nat list \<Rightarrow> nat \<Rightarrow> nat list" where
  "set_add ts t = (if t \<in> set ts then ts else ts @ [t])"

definition set_delete :: "nat list \<Rightarrow> nat \<Rightarrow> nat list" where
  "set_delete ts t = removeAll t ts"

definition createTrap :: "state \<Rightarrow> nat \<times> state" where
  "createTrap s =
     (next_trap s,
      s\<lparr>traps := (traps s)(next_trap s := empty_trap), next_trap := Suc (next_trap s)\<rparr>)"

definition bindTrapToFile :: "state \<Rightarrow> nat \<Rightarrow> path \<Rightarrow> state" where
  "bindTrapToFile s t p =
     (let ts = (case trapsByFile s p of None \<Rightarrow> [] | Some ts \<Rightarrow> ts)
      in s\<lparr>trapsByFile := (trapsByFile s)(p \<mapsto> set_add ts t)\<rparr>)"

text \<open>
  \<open>_createFile\<close>. Modelled from the spec: the setters of \<open>File\<close> (file_system/file.js is
  not among the sources) pre-seed the cell they name.
\<close>

definition createFile :: "state \<Rightarrow> path \<Rightarrow> stat_info option \<Rightarrow> File \<times> state" where
  "createFile s p st =
     (let f = \<lparr>file_ref = next_file s, file_path = p,
                cell_stat = st,
                cell_isFile = map_option st_isFile st,
                cell_modifiedTime = map_option st_mtime st\<rparr>
      in (f, s\<lparr>files := (files s)(p \<mapsto> Some f), next_file := Suc (next_file s)\<rparr>))"

definition removeFile :: "state \<Rightarrow> path \<Rightarrow> state" where
  "removeFile s p = s\<lparr>files := (files s)(p \<mapsto> None)\<rparr>"

text \<open>
  Modelled from the spec: \<open>File.setIsFile\<close> (file_system/file.js is not among the
  sources) pre-seeds the \<open>isFile\<close> cell of the file object, which is the object
  stored in \<open>files\<close> for its path.
\<close>

definition setIsFile :: "state \<Rightarrow> File \<Rightarrow> bool \<Rightarrow> state" where
  "setIsFile s f v = s\<lparr>files := (files s)(file_path f \<mapsto> Some (f\<lparr>cell_isFile := Some v\<rparr>))\<rparr>"

text \<open>
  \<open>_triggerTraps\<close>. The first loop visits the traps from the last to the first and deletes
  each from the set of every path of its bindings; \<open>this.trapsByFile[path]\<close> of a path
  with no set is \<open>undefined\<close>, and \<open>.delete\<close> on it throws. The second loop pushes the
  notifications, again from the last to the first.
\<close>

fun detachTrap :: "state \<Rightarrow> nat \<Rightarrow> path list \<Rightarrow> outcome" where
  "detachTrap s t [] = Returns s"
| "detachTrap s t (p # ps) =
     (case trapsByFile s p of
        None \<Rightarrow> Throws TypeError s
      | Some ts \<Rightarrow> detachTrap (s\<lparr>trapsByFile := (trapsByFile s)(p \<mapsto> set_delete ts t)\<rparr>) t ps)"

fun detachAll :: "state \<Rightarrow> nat list \<Rightarrow> outcome" where
  "detachAll s [] = Returns s"
| "detachAll s (t # ts) =
     (case detachTrap s t (map fst (bindings (traps s t))) of
        Throws e s' \<Rightarrow> Throws e s'
      | Returns s' \<Rightarrow> detachAll s' ts)"

definition pushAll :: "state \<Rightarrow> nat list \<Rightarrow> path \<Rightarrow> cause \<Rightarrow> state" where
  "pushAll s ts p c =
     s\<lparr>trapTriggered := trapTriggered s @ map (\<lambda>t. \<lparr>n_trap = t, n_path = p, n_cause = c\<rparr>) ts\<rparr>"

definition triggerTraps :: "state \<Rightarrow> nat list \<Rightarrow> path \<Rightarrow> cause \<Rightarrow> outcome" where
  "triggerTraps s ts p c =
     (if length ts = 0 then Returns s
      else case detachAll s (rev ts) of
             Throws e s' \<Rightarrow> Throws e s'
           | Returns s' \<Rightarrow> Returns (pushAll s' (rev ts) p c))"

text \<open>The three loops that choose the traps to trigger, in the order of the set.\<close>

definition addedTraps :: "state \<Rightarrow> path \<Rightarrow> nat list \<Rightarrow> nat list" where
  "addedTraps s p ts =
     filter (\<lambda>t. case bindingOf s t p of
                   None \<Rightarrow> False
                 | Some b \<Rightarrow> b_isFile b = Some False) ts"

definition changedTraps :: "state \<Rightarrow> path \<Rightarrow> nat list \<Rightarrow> nat list" where
  "changedTraps s p ts =
     filter (\<lambda>t. if triggerOnChange (traps s t) p = Some True then True
                 else case bindingOf s t p of
                        None \<Rightarrow> False
                      | Some b \<Rightarrow> b_modifiedTime b \<noteq> None \<or> b_textHash b \<noteq> None) ts"

text \<open>
  In \<open>_handleFileRemoved\<close> the loop reads \<open>trap.bindings[path].isFile\<close> with no test of
  \<open>trap.bindings[path]\<close>: on a trap with no bindings for the path it throws.
\<close>

fun removedTraps :: "state \<Rightarrow> path \<Rightarrow> nat list \<Rightarrow> js_error + nat list" where
  "removedTraps s p [] = Inr []"
| "removedTraps s p (t # ts) =
     (case bindingOf s t p of
        None \<Rightarrow> Inl TypeError
      | Some b \<Rightarrow>
          (case removedTraps s p ts of
             Inl e \<Rightarrow> Inl e
           | Inr r \<Rightarrow> Inr (if b_isFile b = Some True then t # r else r)))"

definition handleFileAdded :: "state \<Rightarrow> path \<Rightarrow> stat_info option \<Rightarrow> outcome" where
  "handleFileAdded s p st =
     (let s1 = (case files s p of
                  Some (Some f) \<Rightarrow> s
                | _ \<Rightarrow> snd (createFile s p st))
      in case trapsByFile s1 p of
           None \<Rightarrow> Returns s1
         | Some ts \<Rightarrow>
             if ts = [] then Returns s1
             else triggerTraps s1 (addedTraps s1 p ts) p Added)"

definition handleFileChanged :: "state \<Rightarrow> path \<Rightarrow> stat_info option \<Rightarrow> outcome" where
  "handleFileChanged s p st =
     (let s1 = snd (createFile (removeFile s p) p st)
      in case trapsByFile s1 p of
           None \<Rightarrow> Returns s1
         | Some ts \<Rightarrow>
             if ts = [] then Returns s1
             else triggerTraps s1 (changedTraps s1 p ts) p Changed)"

definition handleFileRemoved :: "state \<Rightarrow> path \<Rightarrow> outcome" where
  "handleFileRemoved s p =
     (let (f, s0) = createFile (removeFile s p) p None;
          s1 = setIsFile s0 f False
      in case trapsByFile s1 p of
           None \<Rightarrow> Returns s1
         | Some ts \<Rightarrow>
             if ts = [] then Returns s1
             else (case removedTraps s1 p ts of
                     Inl e \<Rightarrow> Throws e s1
                   | Inr r \<Rightarrow> triggerTraps s1 r p Removed))"

text \<open>
  \<open>_evaluateFileMethod\<close>, the part that runs at the call: the file the query is made on,
  created if the cache holds none.
\<close>

definition evaluateFileMethod :: "state \<Rightarrow> path \<Rightarrow> File \<times> state" where
  "evaluateFileMethod s p =
     (case files s p of
        Some (Some f) \<Rightarrow> (f, s)
      | _ \<Rightarrow> createFile s p None)"

text \<open>\<open>_blockStaleFilesFromResolving\<close>: true when it answers the promise that never settles.\<close>

definition blockStaleFilesFromResolving :: "state \<Rightarrow> File \<Rightarrow> bool" where
  "blockStaleFilesFromResolving s f =
     (case files s (file_path f) of
        Some (Some g) \<Rightarrow> file_ref g \<noteq> file_ref f
      | _ \<Rightarrow> True)"

text \<open>
  The outcome of the file's own promise (the storage backend's value or error), and what
  the promise returned by \<open>_evaluateFileMethod\<close> does when that outcome arrives in state
  \<open>s\<close>: the \<open>catch\<close> handler, then the \<open>then\<close> handler.
\<close>

datatype 'a io_outcome = IOValue 'a | IOError string

datatype 'a settlement = Resolved 'a | Rejected string | NeverSettles

definition settle :: "state \<Rightarrow> File \<Rightarrow> 'a io_outcome \<Rightarrow> 'a settlement" where
  "settle s f r =
     (case r of
        IOError err \<Rightarrow>
          if blockStaleFilesFromResolving s f then NeverSettles else Rejected err
      | IOValue data \<Rightarrow>
          if blockStaleFilesFromResolving s f then NeverSettles else Resolved data)"

subsection \<open>FileSystemTrap\<close>

definition upd_trap :: "state \<Rightarrow> nat \<Rightarrow> (trap \<Rightarrow> trap) \<Rightarrow> state" where
  "upd_trap s t g = s\<lparr>traps := (traps s)(t := g (traps s t))\<rparr>"

definition ensureBindingToFile :: "state \<Rightarrow> nat \<Rightarrow> path \<Rightarrow> state" where
  "ensureBindingToFile s t p =
     (if boundFiles (traps s t) p = None
      then bindTrapToFile (upd_trap s t (\<lambda>T. T\<lparr>boundFiles := (boundFiles T)(p \<mapsto> True)\<rparr>)) t p
      else s)"

text \<open>
  A new binding object (the \<open>{}\<close> of \<open>_getFileBindings\<close>, or an object the caller
  of \<open>rehydrateTrap\<close> builds), and a write to the fields of an object.
\<close>

definition newObject :: "state \<Rightarrow> binding \<Rightarrow> nat \<times> state" where
  "newObject s b =
     (next_object s,
      s\<lparr>objects := (objects s)(next_object s := b), next_object := Suc (next_object s)\<rparr>)"

definition upd_object :: "state \<Rightarrow> nat \<Rightarrow> (binding \<Rightarrow> binding) \<Rightarrow> state" where
  "upd_object s r g = s\<lparr>objects := (objects s)(r := g (objects s r))\<rparr>"

text \<open>\<open>trap.bindings[path] = object\<close>; a new key goes last.\<close>

definition setBindingRef :: "state \<Rightarrow> nat \<Rightarrow> path \<Rightarrow> nat \<Rightarrow> state" where
  "setBindingRef s t p r = upd_trap s t (\<lambda>T. T\<lparr>bindings := AList.update p r (bindings T)\<rparr>)"

text \<open>\<open>_getFileBindings\<close> answers the binding object of the path, a new one if none.\<close>

definition getFileBindings :: "state \<Rightarrow> nat \<Rightarrow> path \<Rightarrow> nat \<times> state" where
  "getFileBindings s t p =
     (case bindingRef s t p of
        Some r \<Rightarrow> (r, s)
      | None \<Rightarrow>
          (let (r, s1) = newObject s empty_binding
           in (r, ensureBindingToFile (setBindingRef s1 t p r) t p)))"

datatype query = IsFile | Stat | ReadModifiedTime | ReadBuffer | ReadText | ReadTextHash

text \<open>
  What a query method of the trap does at the call, before any promise settles:
  \<open>isFile\<close> only asks the cache; the five others first bind the trap to the file and
  set \<open>triggerOnChange[path]\<close>. The answer is the file the cache query runs on.
\<close>

definition trap_call :: "state \<Rightarrow> nat \<Rightarrow> query \<Rightarrow> path \<Rightarrow> File \<times> state" where
  "trap_call s t m p =
     (if m = IsFile then evaluateFileMethod s p
      else evaluateFileMethod
             (upd_trap (ensureBindingToFile s t p) t
                (\<lambda>T. T\<lparr>triggerOnChange := (triggerOnChange T)(p \<mapsto> True)\<rparr>)) p)"

text \<open>
  The \<open>then\<close> callbacks, run when the cache's promise resolves with the value given.
  The callbacks of \<open>readBuffer\<close>, \<open>readText\<close> and \<open>readTextHash\<close> call
  \<open>readModifiedTime\<close>, \<open>readTextHash\<close> and \<open>readModifiedTime\<close>: they are
  \<open>trap_call\<close> again. \<open>trap_readTextHash_then\<close> is the innermost callback of
  \<open>readTextHash\<close>, run once that \<open>readModifiedTime\<close> has resolved.
\<close>

definition trap_isFile_then :: "state \<Rightarrow> nat \<Rightarrow> path \<Rightarrow> bool \<Rightarrow> state" where
  "trap_isFile_then s t p isFile =
     (let (r, s1) = getFileBindings s t p
      in if b_isFile (objects s1 r) = None
         then upd_object s1 r (\<lambda>b. b\<lparr>b_isFile := Some isFile\<rparr>)
         else s1)"

definition trap_stat_then :: "state \<Rightarrow> nat \<Rightarrow> path \<Rightarrow> stat_info \<Rightarrow> state" where
  "trap_stat_then s t p st =
     (let (r, s1) = getFileBindings s t p;
          s2 = upd_object s1 r (\<lambda>b. b\<lparr>b_isFile := Some True\<rparr>)
      in if b_modifiedTime (objects s2 r) = None
         then upd_object s2 r (\<lambda>b. b\<lparr>b_modifiedTime := Some (st_mtime st)\<rparr>)
         else s2)"

definition trap_readModifiedTime_then :: "state \<Rightarrow> nat \<Rightarrow> path \<Rightarrow> int \<Rightarrow> state" where
  "trap_readModifiedTime_then s t p modifiedTime =
     (let (r, s1) = getFileBindings s t p;
          s2 = upd_object s1 r (\<lambda>b. b\<lparr>b_isFile := Some True\<rparr>)
      in upd_object s2 r (\<lambda>b. b\<lparr>b_modifiedTime := Some modifiedTime\<rparr>))"

definition trap_readTextHash_then :: "state \<Rightarrow> nat \<Rightarrow> path \<Rightarrow> string \<Rightarrow> state" where
  "trap_readTextHash_then s t p textHash =
     (let (r, s1) = getFileBindings s t p
      in if b_textHash (objects s1 r) = None
         then upd_object s1 r (\<lambda>b. b\<lparr>b_textHash := Some textHash\<rparr>)
         else s1)"

text \<open>\<open>describeDependencies\<close> answers \<open>this.bindings\<close> itself: the trap's own objects.\<close>

definition describeDependencies :: "state \<Rightarrow> nat \<Rightarrow> (path \<times> nat) list" where
  "describeDependencies s t = bindings (traps s t)"

text \<open>
  \<open>rehydrateTrap\<close>, the branch taken once the validator (file_system/dependencies.js, not
  among the sources) has answered that the dependencies are valid. The dependencies are
  a plain object of the caller's (the loop calls its \<open>hasOwnProperty\<close>) that maps each
  path to a binding object, and \<open>trap.bindings[path] = dependencies[path]\<close> stores that
  object, not a copy of it.
\<close>

fun rehydrateBindings :: "state \<Rightarrow> nat \<Rightarrow> (path \<times> nat) list \<Rightarrow> state" where
  "rehydrateBindings s t [] = s"
| "rehydrateBindings s t ((p, r) # ds) =
     rehydrateBindings (bindTrapToFile (setBindingRef s t p r) t p) t ds"

definition rehydrateTrap :: "state \<Rightarrow> (path \<times> nat) list \<Rightarrow> nat \<times> state" where
  "rehydrateTrap s dependencies =
     (let (t, s1) = createTrap s in (t, rehydrateBindings s1 t dependencies))"

subsection \<open>Runs\<close>

text \<open>
  JavaScript runs each synchronous block to its end before the next one starts. A run of
  the system is a sequence of such blocks: the creation of a trap, the call of a
  query method, the callback of a query whose promise resolved (with its value),
  a query made on the cache directly, and the three events. \<open>NewObject\<close> is the
  caller building a binding object (a saved binding read back, say) that it will hand
  to \<open>rehydrateTrap\<close>; \<open>RehydrateTrap\<close> names the objects by reference, those of
  \<open>describeDependencies\<close> or new ones.
\<close>

datatype action =
    CreateTrap
  | NewObject binding
  | RehydrateTrap "(path \<times> nat) list"
  | Call nat query path
  | IsFileThen nat path bool
  | StatThen nat path stat_info
  | ReadModifiedTimeThen nat path int
  | ReadTextHashThen nat path string
  | CacheQuery path
  | FileAdded path "stat_info option"
  | FileChanged path "stat_info option"
  | FileRemoved path

fun step :: "state \<Rightarrow> action \<Rightarrow> outcome" where
  "step s CreateTrap = Returns (snd (createTrap s))"
| "step s (NewObject b) = Returns (snd (newObject s b))"
| "step s (RehydrateTrap ds) = Returns (snd (rehydrateTrap s ds))"
| "step s (Call t m p) = Returns (snd (trap_call s t m p))"
| "step s (IsFileThen t p v) = Returns (trap_isFile_then s t p v)"
| "step s (StatThen t p st) = Returns (trap_stat_then s t p st)"
| "step s (ReadModifiedTimeThen t p mt) = Returns (trap_readModifiedTime_then s t p mt)"
| "step s (ReadTextHashThen t p h) = Returns (trap_readTextHash_then s t p h)"
| "step s (CacheQuery p) = Returns (snd (evaluateFileMethod s p))"
| "step s (FileAdded p st) = handleFileAdded s p st"
| "step s (FileChanged p st) = handleFileChanged s p st"
| "step s (FileRemoved p) = handleFileRemoved s p"

text \<open>A block that throws leaves the state it had reached; the run goes on from there.\<close>

fun run :: "state \<Rightarrow> action list \<Rightarrow> state" where
  "run s [] = s"
| "run s (a # as) = run (state_of (step s a)) as"

text \<open>The notifications pushed between two states of a run.\<close>

definition emitted :: "state \<Rightarrow> state \<Rightarrow> notification list" where
  "emitted s s' = drop (length (trapTriggered s)) (trapTriggered s')"

text \<open>The traps in the reverse index of a path, in the order they were registered.\<close>

definition registered :: "state \<Rightarrow> path \<Rightarrow> nat list" where
  "registered s p = (case trapsByFile s p of None \<Rightarrow> [] | Some ts \<Rightarrow> ts)"

text \<open>The error a block threw, if it threw.\<close>

fun thrown :: "outcome \<Rightarrow> js_error option" where
  "thrown (Returns s) = None"
| "thrown (Throws e s) = Some e"

text \<open>The file a path holds in the cache, if it holds one.\<close>

definition currentFile :: "state \<Rightarrow> path \<Rightarrow> File option" where
  "currentFile s p = (case files s p of Some (Some f) \<Rightarrow> Some f | _ \<Rightarrow> None)"

subsection \<open>Invariants\<close>

text \<open>
  \<open>index_only s s'\<close>: from \<open>s\<close> to \<open>s'\<close> nothing changed but the sets of the reverse
  index, and no path gained or lost its set.
\<close>

definition index_only :: "state \<Rightarrow> state \<Rightarrow> bool" where
  "index_only s s' \<longleftrightarrow>
     files s' = files s \<and> traps s' = traps s \<and> objects s' = objects s
     \<and> trapTriggered s' = trapTriggered s
     \<and> next_trap s' = next_trap s \<and> next_file s' = next_file s
     \<and> next_object s' = next_object s
     \<and> dom (trapsByFile s') = dom (trapsByFile s)"

text \<open>
  What holds in every state the cache reaches: a path in a trap's bindings or in its
  \<open>boundFiles\<close> has a set in the reverse index, and a file stored in \<open>files\<close> is stored
  under its own path and was created before.
\<close>

definition wf_state :: "state \<Rightarrow> bool" where
  "wf_state s \<longleftrightarrow>
     (\<forall>t p. p \<in> fst ` set (bindings (traps s t)) \<longrightarrow> p \<in> dom (trapsByFile s))
   \<and> (\<forall>t p. p \<in> dom (boundFiles (traps s t)) \<longrightarrow> p \<in> dom (trapsByFile s))
   \<and> (\<forall>p f. files s p = Some (Some f) \<longrightarrow> file_path f = p \<and> file_ref f < next_file s)"

text \<open>
  \<open>superseded s f\<close>: the cache holds, for the path of \<open>f\<close>, a file created after \<open>f\<close>.
\<close>

definition superseded :: "state \<Rightarrow> File \<Rightarrow> bool" where
  "superseded s f \<longleftrightarrow> (\<exists>g. files s (file_path f) = Some (Some g) \<and> file_ref f < file_ref g)"

text \<open>
  What a block of a run may do to a binding that is recorded: the text hash stays; the
  \<open>isFile\<close> value stays or becomes true, and stays when \<open>isf\<close> holds; the modified
  time stays when \<open>mt\<close> holds.
\<close>

definition kept :: "bool \<Rightarrow> bool \<Rightarrow> binding \<Rightarrow> binding \<Rightarrow> bool" where
  "kept isf mt b b' \<longleftrightarrow>
     (\<forall>h. b_textHash b = Some h \<longrightarrow> b_textHash b' = Some h)
   \<and> (\<forall>v. b_isFile b = Some v \<longrightarrow> b_isFile b' = Some v \<or> b_isFile b' = Some True)
   \<and> (isf \<longrightarrow> (\<forall>v. b_isFile b = Some v \<longrightarrow> b_isFile b' = Some v))
   \<and> (mt \<longrightarrow> (\<forall>m. b_modifiedTime b = Some m \<longrightarrow> b_modifiedTime b' = Some m))"

text \<open>
  The blocks that write a field of a binding object without a test: the callbacks of
  \<open>stat\<close> and \<open>readModifiedTime\<close> write \<open>isFile\<close>, the callback of
  \<open>readModifiedTime\<close> writes \<open>modifiedTime\<close>, on the object that the trap holds
  for the path when the block runs. \<open>neverWrites w r s as\<close>: in the run \<open>as\<close> from
  \<open>s\<close>, no block writes to the object \<open>r\<close> in the sense of \<open>w\<close>.
\<close>

fun writesIsFile :: "state \<Rightarrow> nat \<Rightarrow> action \<Rightarrow> bool" where
  "writesIsFile s r (StatThen t p st) = (bindingRef s t p = Some r)"
| "writesIsFile s r (ReadModifiedTimeThen t p mt) = (bindingRef s t p = Some r)"
| "writesIsFile s r a = False"



subsection \<open>Scenarios\<close>

text \<open>
  Two traps on \<open>a.js\<close>: trap 0 asked \<open>isFile\<close> and was answered true, trap 1 asked
  \<open>readModifiedTime\<close> and was answered 5.
\<close>

definition two_observers :: "action list" where
  "two_observers =
     [CreateTrap, CreateTrap,
      Call 0 IsFile ''a.js'', IsFileThen 0 ''a.js'' True,
      Call 1 ReadModifiedTime ''a.js'', ReadModifiedTimeThen 1 ''a.js'' 5]"

text \<open>
  The path \<open>lib\<close> is added with a stat whose \<open>isFile()\<close> is false (a directory); a
  trap asks \<open>isFile('lib')\<close> and is answered false, the value of the pre-seeded cell.
\<close>

definition dir_stat :: stat_info where
  "dir_stat = \<lparr>st_isFile = False, st_mtime = 5\<rparr>"






text \<open>The cache learnt of \<open>a.js\<close> by an added event.\<close>

definition file_stat :: stat_info where
  "file_stat = \<lparr>st_isFile = True, st_mtime = 7\<rparr>"

definition known_file :: "action list" where
  "known_file = [FileAdded ''a.js'' (Some file_stat)]"

text \<open>The file that \<open>known_file\<close> stores for \<open>a.js\<close>.\<close>

definition first_file :: File where
  "first_file = \<lparr>file_ref = 0, file_path = ''a.js'', cell_stat = Some file_stat,
                  cell_isFile = Some True, cell_modifiedTime = Some 7\<rparr>"


definition removed_file :: File where
  "removed_file = \<lparr>file_ref = 0, file_path = ''a.js'', cell_stat = None,
                    cell_isFile = Some False, cell_modifiedTime = None\<rparr>"

text \<open>
  A trap saw that \<open>a.js\<close> is a file, and has called \<open>stat('b.js')\<close>, whose promise
  has not resolved (or was rejected): the trap is bound to \<open>b.js\<close> and has no binding
  for it.
\<close>

definition pending_stat :: "action list" where
  "pending_stat =
     [CreateTrap, Call 0 IsFile ''a.js'', IsFileThen 0 ''a.js'' True, Call 0 Stat ''b.js'']"

text \<open>
  Two traps saw that \<open>a.js\<close> is a file, trap 0 before trap 1, and trap 1 has called
  \<open>stat('b.js')\<close>, whose promise has not resolved.
\<close>

definition two_traps_pending_stat :: "action list" where
  "two_traps_pending_stat =
     [CreateTrap, CreateTrap,
      Call 0 IsFile ''a.js'', IsFileThen 0 ''a.js'' True,
      Call 1 IsFile ''a.js'', IsFileThen 1 ''a.js'' True,
      Call 1 Stat ''b.js'']"

text \<open>
  Trap 0 saw that \<open>a.js\<close> is a file; trap 1 has called \<open>stat('a.js')\<close>, whose promise
  has not resolved.
\<close>

definition observer_and_pending :: "action list" where
  "observer_and_pending =
     [CreateTrap, CreateTrap,
      Call 0 IsFile ''a.js'', IsFileThen 0 ''a.js'' True,
      Call 1 Stat ''a.js'']"


text \<open>
  Trap 0 asked \<open>isFile('lib')\<close> and was answered false. Trap 1 is rehydrated from a
  shallow copy of the dependencies of trap 0, which holds the binding object 0 for
  \<open>lib\<close>; it calls \<open>stat('lib')\<close>, which resolves.
\<close>

definition shared_binding :: "action list" where
  "shared_binding =
     [CreateTrap, Call 0 IsFile ''lib'', IsFileThen 0 ''lib'' False,
      RehydrateTrap [(''lib'', 0)], Call 1 Stat ''lib'', StatThen 1 ''lib'' dir_stat]"

text \<open>A trap has called \<open>stat('a.js')\<close>, whose promise has not resolved.\<close>

definition stat_in_flight :: "action list" where
  "stat_in_flight = [CreateTrap, Call 0 Stat ''a.js'']"

section \<open>Properties of the diff functions\<close>

lemma getChangedNodes_iff:
  "k \<in> set (getChangedNodes d) \<longleftrightarrow>
     (\<exists>v. (k, v) \<in> set (diff_to d) \<and> truthy (get (diff_from d) k) \<and> v \<noteq> get (diff_from d) k)"
  by (auto simp: getChangedNodes_def is_imm_def Let_def image_iff)

lemma getChangedNodes_absent:
  "\<not> has (diff_from d) k \<Longrightarrow> k \<notin> set (getChangedNodes d)"
  by (auto simp: getChangedNodes_iff has_def get_def map_of_eq_None_iff [THEN iffD2])

section \<open>Properties of the cache\<close>

subsection \<open>Triggering traps\<close>

lemma index_only_refl: "index_only s s"
  by (simp add: index_only_def)

lemma index_only_trans: "index_only s s1 \<Longrightarrow> index_only s1 s2 \<Longrightarrow> index_only s s2"
  by (simp add: index_only_def)

lemma detachTrap_index_only: "index_only s (state_of (detachTrap s t ps))"
proof (induction ps arbitrary: s)
  case Nil
  show ?case by (simp add: index_only_def)
next
  case (Cons p ps)
  show ?case
  proof (cases "trapsByFile s p")
    case None
    then show ?thesis by (simp add: index_only_def)
  next
    case (Some ts)
    let ?s1 = "s\<lparr>trapsByFile := (trapsByFile s)(p \<mapsto> set_delete ts t)\<rparr>"
    have "index_only s ?s1" using Some by (auto simp: index_only_def)
    from index_only_trans [OF this Cons.IH [of ?s1]] show ?thesis using Some by simp
  qed
qed

lemma detachTrap_returns:
  "set ps \<subseteq> dom (trapsByFile s) \<Longrightarrow> \<exists>s'. detachTrap s t ps = Returns s'"
proof (induction ps arbitrary: s)
  case Nil
  show ?case by simp
next
  case (Cons p ps)
  then obtain ts where ts: "trapsByFile s p = Some ts" by auto
  let ?s1 = "s\<lparr>trapsByFile := (trapsByFile s)(p \<mapsto> set_delete ts t)\<rparr>"
  have "set ps \<subseteq> dom (trapsByFile ?s1)" using Cons.prems by auto
  from Cons.IH [OF this] show ?case using ts by simp
qed

lemma detachAll_index_only: "index_only s (state_of (detachAll s ts))"
proof (induction ts arbitrary: s)
  case Nil
  show ?case by (simp add: index_only_def)
next
  case (Cons t ts)
  let ?ps = "map fst (bindings (traps s t))"
  have a: "index_only s (state_of (detachTrap s t ?ps))" by (rule detachTrap_index_only)
  show ?case
  proof (cases "detachTrap s t ?ps")
    case (Returns s1)
    with a have "index_only s s1" by simp
    from index_only_trans [OF this Cons.IH [of s1]] show ?thesis using Returns by simp
  next
    case (Throws e s1)
    with a show ?thesis by simp
  qed
qed

lemma wf_state_index_only: "wf_state s \<Longrightarrow> index_only s s' \<Longrightarrow> wf_state s'"
  by (simp add: wf_state_def index_only_def)

lemma detachAll_returns:
  "wf_state s \<Longrightarrow> \<exists>s'. detachAll s ts = Returns s'"
proof (induction ts arbitrary: s)
  case Nil
  show ?case by simp
next
  case (Cons t ts)
  let ?ps = "map fst (bindings (traps s t))"
  have "set ?ps \<subseteq> dom (trapsByFile s)" using Cons.prems by (auto simp: wf_state_def)
  from detachTrap_returns [OF this] obtain s1 where s1: "detachTrap s t ?ps = Returns s1" by blast
  have "index_only s s1" using detachTrap_index_only [of s t ?ps] s1 by simp
  then have "wf_state s1" using Cons.prems wf_state_index_only by blast
  from Cons.IH [OF this] show ?case using s1 by simp
qed

lemma triggerTraps_returns:
  assumes "wf_state s"
  shows "\<exists>s'. triggerTraps s ts p c = Returns s' \<and> files s' = files s \<and> traps s' = traps s
     \<and> objects s' = objects s \<and> next_object s' = next_object s
     \<and> next_trap s' = next_trap s \<and> next_file s' = next_file s
     \<and> dom (trapsByFile s') = dom (trapsByFile s)
     \<and> trapTriggered s' =
         trapTriggered s @ map (\<lambda>t. \<lparr>n_trap = t, n_path = p, n_cause = c\<rparr>) (rev ts)"
proof (cases "ts = []")
  case True
  then show ?thesis by (simp add: triggerTraps_def)
next
  case False
  from detachAll_returns [OF assms] obtain s1 where s1: "detachAll s (rev ts) = Returns s1"
    by blast
  have "index_only s s1" using detachAll_index_only [of s "rev ts"] s1 by simp
  then show ?thesis using False s1
    by (simp add: triggerTraps_def pushAll_def index_only_def)
qed

lemma triggerTraps_frame:
  "files (state_of (triggerTraps s ts p c)) = files s
   \<and> traps (state_of (triggerTraps s ts p c)) = traps s
   \<and> objects (state_of (triggerTraps s ts p c)) = objects s
   \<and> next_object (state_of (triggerTraps s ts p c)) = next_object s
   \<and> next_trap (state_of (triggerTraps s ts p c)) = next_trap s
   \<and> next_file (state_of (triggerTraps s ts p c)) = next_file s
   \<and> dom (trapsByFile (state_of (triggerTraps s ts p c))) = dom (trapsByFile s)"
proof -
  have a: "index_only s (state_of (detachAll s (rev ts)))" by (rule detachAll_index_only)
  show ?thesis
  proof (cases "detachAll s (rev ts)")
    case (Returns s1)
    with a show ?thesis by (simp add: triggerTraps_def pushAll_def index_only_def)
  next
    case (Throws e s1)
    with a show ?thesis by (simp add: triggerTraps_def pushAll_def index_only_def)
  qed
qed

subsection \<open>The invariant holds in every reachable state\<close>

lemma wf_state_init: "wf_state init"
  by (simp add: wf_state_def init_def empty_trap_def)

lemma wf_state_createTrap: "wf_state s \<Longrightarrow> wf_state (snd (createTrap s))"
  by (simp add: wf_state_def createTrap_def empty_trap_def)

lemma wf_state_bindTrapToFile: "wf_state s \<Longrightarrow> wf_state (bindTrapToFile s t p)"
  by (auto simp: wf_state_def bindTrapToFile_def Let_def)

lemma bindTrapToFile_dom: "p \<in> dom (trapsByFile (bindTrapToFile s t p))"
  by (simp add: bindTrapToFile_def Let_def)

lemma wf_state_createFile: "wf_state s \<Longrightarrow> wf_state (snd (createFile s p st))"
  by (auto simp: wf_state_def createFile_def Let_def less_Suc_eq)

lemma wf_state_removeFile: "wf_state s \<Longrightarrow> wf_state (removeFile s p)"
  by (auto simp: wf_state_def removeFile_def)

lemma wf_state_evaluateFileMethod: "wf_state s \<Longrightarrow> wf_state (snd (evaluateFileMethod s p))"
  by (auto simp: evaluateFileMethod_def wf_state_createFile split: option.splits)

lemma wf_state_ensureBindingToFile: "wf_state s \<Longrightarrow> wf_state (ensureBindingToFile s t p)"
  by (auto simp: wf_state_def ensureBindingToFile_def bindTrapToFile_def upd_trap_def Let_def)

lemma wf_state_newObject: "wf_state s \<Longrightarrow> wf_state (snd (newObject s b))"
  by (simp add: wf_state_def newObject_def)

lemma wf_state_upd_object: "wf_state s \<Longrightarrow> wf_state (upd_object s r g)"
  by (simp add: wf_state_def upd_object_def)

lemma wf_state_setBindingRef:
  "wf_state s \<Longrightarrow> p \<in> dom (trapsByFile s) \<Longrightarrow> wf_state (setBindingRef s t p r)"
  by (auto simp: wf_state_def setBindingRef_def upd_trap_def dom_update)

lemma wf_state_bind_setBindingRef:
  "wf_state s \<Longrightarrow> wf_state (bindTrapToFile (setBindingRef s t p r) t p)"
  by (auto simp: wf_state_def setBindingRef_def upd_trap_def dom_update bindTrapToFile_def Let_def)

lemma wf_state_ensure_setBindingRef:
  assumes "wf_state s"
  shows "wf_state (ensureBindingToFile (setBindingRef s t p r) t p)"
proof (cases "boundFiles (traps s t) p")
  case None
  then show ?thesis using assms
    by (auto simp: wf_state_def setBindingRef_def upd_trap_def dom_update bindTrapToFile_def
        Let_def ensureBindingToFile_def)
next
  case (Some y)
  then have "p \<in> dom (boundFiles (traps s t))" by auto
  with assms have "p \<in> dom (trapsByFile s)" unfolding wf_state_def by blast
  from wf_state_setBindingRef [OF assms this] Some show ?thesis
    by (simp add: ensureBindingToFile_def setBindingRef_def upd_trap_def)
qed

lemma getFileBindings_new:
  "bindingRef s t p = None \<Longrightarrow>
   getFileBindings s t p =
     (next_object s,
      ensureBindingToFile (setBindingRef (snd (newObject s empty_binding)) t p (next_object s)) t p)"
  by (simp add: getFileBindings_def newObject_def)

lemma getFileBindings_old: "bindingRef s t p = Some r \<Longrightarrow> getFileBindings s t p = (r, s)"
  by (simp add: getFileBindings_def)

lemma getFileBindings_wf:
  assumes "wf_state s"
  shows "wf_state (snd (getFileBindings s t p))"
    and "p \<in> dom (trapsByFile (snd (getFileBindings s t p)))"
proof -
  let ?s1 = "snd (newObject s empty_binding)"
  let ?s2 = "ensureBindingToFile (setBindingRef ?s1 t p (next_object s)) t p"
  have wf1: "wf_state ?s1" using assms by (rule wf_state_newObject)
  have wf2: "wf_state ?s2" using wf1 by (rule wf_state_ensure_setBindingRef)
  show "wf_state (snd (getFileBindings s t p))"
  proof (cases "bindingRef s t p")
    case None
    from getFileBindings_new [OF this] wf2 show ?thesis by simp
  next
    case (Some r)
    from getFileBindings_old [OF this] assms show ?thesis by simp
  qed
  show "p \<in> dom (trapsByFile (snd (getFileBindings s t p)))"
  proof (cases "bindingRef s t p")
    case None
    have "p \<in> fst ` set (bindings (traps ?s2 t))"
      by (simp add: ensureBindingToFile_def bindTrapToFile_def setBindingRef_def upd_trap_def
          Let_def dom_update)
    with wf2 have "p \<in> dom (trapsByFile ?s2)" unfolding wf_state_def by blast
    with getFileBindings_new [OF None] show ?thesis by simp
  next
    case (Some r)
    then have "p \<in> fst ` set (bindings (traps s t))"
      by (auto simp: bindingRef_def dest!: map_of_SomeD intro: rev_image_eqI)
    with assms have "p \<in> dom (trapsByFile s)" unfolding wf_state_def by blast
    with getFileBindings_old [OF Some] show ?thesis by simp
  qed
qed

lemma wf_state_isFile_then: "wf_state s \<Longrightarrow> wf_state (trap_isFile_then s t p v)"
  using getFileBindings_wf(1) [where s=s and t=t and p=p]
  by (simp add: trap_isFile_then_def wf_state_upd_object case_prod_beta)

lemma wf_state_stat_then: "wf_state s \<Longrightarrow> wf_state (trap_stat_then s t p st)"
  using getFileBindings_wf(1) [where s=s and t=t and p=p]
  by (simp add: trap_stat_then_def Let_def wf_state_upd_object case_prod_beta)

lemma wf_state_readModifiedTime_then:
  "wf_state s \<Longrightarrow> wf_state (trap_readModifiedTime_then s t p mt)"
  using getFileBindings_wf(1) [where s=s and t=t and p=p]
  by (simp add: trap_readModifiedTime_then_def Let_def wf_state_upd_object case_prod_beta)

lemma wf_state_readTextHash_then:
  "wf_state s \<Longrightarrow> wf_state (trap_readTextHash_then s t p h)"
  using getFileBindings_wf(1) [where s=s and t=t and p=p]
  by (simp add: trap_readTextHash_then_def wf_state_upd_object case_prod_beta)

lemma wf_state_upd_trigger:
  "wf_state s \<Longrightarrow>
   wf_state (upd_trap s t (\<lambda>T. T\<lparr>triggerOnChange := (triggerOnChange T)(p \<mapsto> True)\<rparr>))"
  by (auto simp: wf_state_def upd_trap_def)

lemma wf_state_trap_call: "wf_state s \<Longrightarrow> wf_state (snd (trap_call s t m p))"
  by (simp add: trap_call_def wf_state_evaluateFileMethod wf_state_upd_trigger
      wf_state_ensureBindingToFile)

lemma wf_state_rehydrateBindings: "wf_state s \<Longrightarrow> wf_state (rehydrateBindings s t ds)"
  by (induction s t ds rule: rehydrateBindings.induct)
     (simp_all add: wf_state_bind_setBindingRef)

lemma wf_state_rehydrateTrap: "wf_state s \<Longrightarrow> wf_state (snd (rehydrateTrap s ds))"
  using wf_state_createTrap [of s]
  by (simp add: rehydrateTrap_def wf_state_rehydrateBindings case_prod_beta)

lemma wf_state_triggerTraps: "wf_state s \<Longrightarrow> wf_state (state_of (triggerTraps s ts p c))"
  using triggerTraps_frame [of s ts p c] by (simp add: wf_state_def)

lemma wf_state_handleFileAdded: "wf_state s \<Longrightarrow> wf_state (state_of (handleFileAdded s p st))"
  by (auto simp: handleFileAdded_def Let_def wf_state_createFile wf_state_triggerTraps
      split: option.splits)

lemma wf_state_handleFileChanged:
  "wf_state s \<Longrightarrow> wf_state (state_of (handleFileChanged s p st))"
  by (auto simp: handleFileChanged_def Let_def wf_state_createFile wf_state_removeFile
      wf_state_triggerTraps split: option.splits)

lemma wf_state_removed_file:
  "wf_state s \<Longrightarrow> wf_state (setIsFile (snd (createFile (removeFile s p) p None))
      (fst (createFile (removeFile s p) p None)) False)"
  by (auto simp: wf_state_def createFile_def removeFile_def setIsFile_def Let_def less_Suc_eq)

lemma wf_state_handleFileRemoved: "wf_state s \<Longrightarrow> wf_state (state_of (handleFileRemoved s p))"
  using wf_state_removed_file [of s p]
  by (auto simp: handleFileRemoved_def Let_def wf_state_triggerTraps
      split: option.splits prod.splits sum.splits)

lemma wf_state_step: "wf_state s \<Longrightarrow> wf_state (state_of (step s a))"
  by (cases a)
    (simp_all add: wf_state_createTrap wf_state_newObject wf_state_rehydrateTrap
      wf_state_trap_call
      wf_state_isFile_then wf_state_stat_then wf_state_readModifiedTime_then
      wf_state_readTextHash_then wf_state_evaluateFileMethod wf_state_handleFileAdded
      wf_state_handleFileChanged wf_state_handleFileRemoved)

lemma wf_state_run: "wf_state s \<Longrightarrow> wf_state (run s as)"
  by (induction as arbitrary: s) (simp_all add: wf_state_step)

lemma wf_state_reachable: "wf_state (run init as)"
  by (rule wf_state_run [OF wf_state_init])

subsection \<open>The notifications of a changed event\<close>

lemma emitted_append: "trapTriggered s' = trapTriggered s @ ns \<Longrightarrow> emitted s s' = ns"
  by (simp add: emitted_def)

lemma changedTraps_iff:
  "t \<in> set (changedTraps s p ts) \<longleftrightarrow>
     t \<in> set ts \<and> (triggerOnChange (traps s t) p = Some True
        \<or> (\<exists>b. bindingOf s t p = Some b \<and> (b_modifiedTime b \<noteq> None \<or> b_textHash b \<noteq> None)))"
  by (auto simp: changedTraps_def split: option.splits)

lemma bindingOf_cong:
  "traps s' = traps s \<Longrightarrow> objects s' = objects s \<Longrightarrow> bindingOf s' t p = bindingOf s t p"
  by (simp add: bindingOf_def bindingRef_def)

lemma changedTraps_cong:
  "traps s' = traps s \<Longrightarrow> objects s' = objects s \<Longrightarrow>
   changedTraps s' p ts = changedTraps s p ts"
  by (simp add: changedTraps_def bindingOf_def bindingRef_def)

lemma handleFileChanged_emitted:
  assumes "wf_state s"
  shows "\<exists>s'. handleFileChanged s p st = Returns s'
     \<and> emitted s s' = map (\<lambda>t. \<lparr>n_trap = t, n_path = p, n_cause = Changed\<rparr>)
                         (rev (changedTraps s p (registered s p)))"
proof -
  let ?s1 = "snd (createFile (removeFile s p) p st)"
  have wf1: "wf_state ?s1"
    using assms by (simp add: wf_state_createFile wf_state_removeFile)
  have same: "traps ?s1 = traps s" "objects ?s1 = objects s" "trapsByFile ?s1 = trapsByFile s"
    "trapTriggered ?s1 = trapTriggered s"
    by (simp_all add: createFile_def removeFile_def Let_def)
  show ?thesis
  proof (cases "trapsByFile s p")
    case None
    then show ?thesis using same
      by (simp add: handleFileChanged_def Let_def registered_def emitted_def changedTraps_def)
  next
    case (Some ts)
    show ?thesis
    proof (cases "ts = []")
      case True
      then show ?thesis using Some same
        by (simp add: handleFileChanged_def Let_def registered_def emitted_def changedTraps_def)
    next
      case False
      from triggerTraps_returns [OF wf1, of "changedTraps ?s1 p ts" p Changed]
      obtain s' where s': "triggerTraps ?s1 (changedTraps ?s1 p ts) p Changed = Returns s'"
        and tr: "trapTriggered s' = trapTriggered ?s1 @
            map (\<lambda>t. \<lparr>n_trap = t, n_path = p, n_cause = Changed\<rparr>) (rev (changedTraps ?s1 p ts))"
        by blast
      have "emitted s s' = map (\<lambda>t. \<lparr>n_trap = t, n_path = p, n_cause = Changed\<rparr>)
          (rev (changedTraps s p ts))"
        using tr same changedTraps_cong [OF same(1,2)] by (simp add: emitted_def)
      moreover have "handleFileChanged s p st = Returns s'"
        using s' Some False same by (simp add: handleFileChanged_def Let_def)
      ultimately show ?thesis using Some by (simp add: registered_def)
    qed
  qed
qed

subsection \<open>What later blocks do to a recorded binding\<close>










lemma kept_weaken: "kept True True b b' \<Longrightarrow> kept isf mt b b'"
  by (simp add: kept_def)















subsection \<open>Files are replaced, and stale queries never settle\<close>

lemma handleFileChanged_files:
  "files (state_of (handleFileChanged s p st)) = files (snd (createFile (removeFile s p) p st))"
  "next_file (state_of (handleFileChanged s p st)) = Suc (next_file s)"
  by (auto simp: handleFileChanged_def Let_def triggerTraps_frame createFile_def removeFile_def
      split: option.splits)

lemma handleFileRemoved_files:
  "files (state_of (handleFileRemoved s p)) =
     files (setIsFile (snd (createFile (removeFile s p) p None))
              (fst (createFile (removeFile s p) p None)) False)"
  "next_file (state_of (handleFileRemoved s p)) = Suc (next_file s)"
  by (auto simp: handleFileRemoved_def Let_def triggerTraps_frame createFile_def removeFile_def
      setIsFile_def split: option.splits sum.splits)

lemma handleFileAdded_files:
  "files (state_of (handleFileAdded s p st)) =
     (case files s p of Some (Some f) \<Rightarrow> files s | _ \<Rightarrow> files (snd (createFile s p st)))"
  "next_file (state_of (handleFileAdded s p st)) =
     (case files s p of Some (Some f) \<Rightarrow> next_file s | _ \<Rightarrow> Suc (next_file s))"
  by (auto simp: handleFileAdded_def Let_def triggerTraps_frame createFile_def
      split: option.splits)

lemma currentFile_changed:
  "currentFile (state_of (handleFileChanged s p st)) q =
     (if q = p then Some \<lparr>file_ref = next_file s, file_path = p, cell_stat = st,
                          cell_isFile = map_option st_isFile st,
                          cell_modifiedTime = map_option st_mtime st\<rparr>
      else currentFile s q)"
  by (simp add: currentFile_def handleFileChanged_files createFile_def removeFile_def Let_def)

lemma currentFile_removed:
  "currentFile (state_of (handleFileRemoved s p)) q =
     (if q = p then Some \<lparr>file_ref = next_file s, file_path = p, cell_stat = None,
                          cell_isFile = Some False, cell_modifiedTime = None\<rparr>
      else currentFile s q)"
  by (simp add: currentFile_def handleFileRemoved_files createFile_def removeFile_def
      setIsFile_def Let_def)

lemma currentFile_added:
  "currentFile (state_of (handleFileAdded s p st)) q =
     (if q = p \<and> currentFile s p = None
      then Some \<lparr>file_ref = next_file s, file_path = p, cell_stat = st,
                  cell_isFile = map_option st_isFile st,
                  cell_modifiedTime = map_option st_mtime st\<rparr>
      else currentFile s q)"
  by (auto simp: currentFile_def handleFileAdded_files createFile_def Let_def
      split: option.splits)


lemma wf_state_currentFile:
  "wf_state s \<Longrightarrow> currentFile s p = Some f \<Longrightarrow> file_path f = p \<and> file_ref f < next_file s"
  by (auto simp: wf_state_def currentFile_def split: option.splits)

lemma currentFile_evaluateFileMethod:
  "currentFile (snd (evaluateFileMethod s p)) q =
     (if q = p \<and> currentFile s p = None
      then Some \<lparr>file_ref = next_file s, file_path = p, cell_stat = None,
                  cell_isFile = None, cell_modifiedTime = None\<rparr>
      else currentFile s q)"
  by (auto simp: currentFile_def evaluateFileMethod_def createFile_def Let_def
      split: option.splits)

lemma fst_evaluateFileMethod:
  "currentFile (snd (evaluateFileMethod s p)) p = Some (fst (evaluateFileMethod s p))"
  by (auto simp: currentFile_def evaluateFileMethod_def createFile_def Let_def
      split: option.splits)

lemma next_file_evaluateFileMethod:
  "next_file s \<le> next_file (snd (evaluateFileMethod s p))"
  by (auto simp: evaluateFileMethod_def createFile_def Let_def split: option.splits)

lemma files_upd_trap: "files (upd_trap s t g) = files s" "next_file (upd_trap s t g) = next_file s"
  by (simp_all add: upd_trap_def)

lemma files_ensureBindingToFile:
  "files (ensureBindingToFile s t p) = files s"
  "next_file (ensureBindingToFile s t p) = next_file s"
  by (simp_all add: ensureBindingToFile_def bindTrapToFile_def upd_trap_def Let_def)

lemma files_upd_object:
  "files (upd_object s r g) = files s" "next_file (upd_object s r g) = next_file s"
  by (simp_all add: upd_object_def)

lemma files_getFileBindings:
  "files (snd (getFileBindings s t p)) = files s"
  "next_file (snd (getFileBindings s t p)) = next_file s"
  by (simp_all add: getFileBindings_def newObject_def files_ensureBindingToFile
      setBindingRef_def upd_trap_def split: option.splits)

lemma files_rehydrateBindings:
  "files (rehydrateBindings s t ds) = files s \<and> next_file (rehydrateBindings s t ds) = next_file s"
  by (induction s t ds rule: rehydrateBindings.induct)
     (simp_all add: bindTrapToFile_def setBindingRef_def upd_trap_def Let_def)

lemma currentFile_cong: "files s' = files s \<Longrightarrow> currentFile s' = currentFile s"
  by (auto simp: currentFile_def fun_eq_iff)

lemma same_files_advances:
  assumes "files s' = files s" and "next_file s' = next_file s"
  shows "next_file s \<le> next_file s'
   \<and> (currentFile s' q = currentFile s q
      \<or> (\<exists>g. currentFile s' q = Some g \<and> file_ref g = next_file s))"
  using assms by (simp add: currentFile_def)

lemma evaluateFileMethod_advances:
  "next_file s \<le> next_file (snd (evaluateFileMethod s p))
   \<and> (currentFile (snd (evaluateFileMethod s p)) q = currentFile s q
      \<or> (\<exists>g. currentFile (snd (evaluateFileMethod s p)) q = Some g \<and> file_ref g = next_file s))"
  using next_file_evaluateFileMethod [of s p] by (simp add: currentFile_evaluateFileMethod)

text \<open>One block either leaves the file of a path in place or stores a new one.\<close>

lemma step_currentFile:
  "next_file s \<le> next_file (state_of (step s a))
   \<and> (currentFile (state_of (step s a)) q = currentFile s q
      \<or> (\<exists>g. currentFile (state_of (step s a)) q = Some g \<and> file_ref g = next_file s))"
proof (cases a)
  case CreateTrap
  then show ?thesis by (simp add: createTrap_def currentFile_def)
next
  case (NewObject b)
  then show ?thesis by (simp add: newObject_def currentFile_def)
next
  case (RehydrateTrap ds)
  have "files (snd (rehydrateTrap s ds)) = files s"
    "next_file (snd (rehydrateTrap s ds)) = next_file s"
    by (simp_all add: rehydrateTrap_def createTrap_def files_rehydrateBindings case_prod_beta)
  from same_files_advances [OF this] show ?thesis using RehydrateTrap by simp
next
  case (Call t m p)
  let ?s0 = "upd_trap (ensureBindingToFile s t p) t
                (\<lambda>T. T\<lparr>triggerOnChange := (triggerOnChange T)(p \<mapsto> True)\<rparr>)"
  have f0: "files ?s0 = files s" "next_file ?s0 = next_file s"
    by (simp_all add: files_upd_trap files_ensureBindingToFile)
  have c0: "currentFile ?s0 = currentFile s" by (rule currentFile_cong) (rule f0)
  show ?thesis
  proof (cases "m = IsFile")
    case True
    with Call evaluateFileMethod_advances [of s p q] show ?thesis by (simp add: trap_call_def)
  next
    case False
    with Call evaluateFileMethod_advances [of ?s0 p q] show ?thesis
      by (simp add: trap_call_def f0 c0)
  qed
next
  case (IsFileThen t p v)
  have "files (trap_isFile_then s t p v) = files s"
    "next_file (trap_isFile_then s t p v) = next_file s"
    by (simp_all add: trap_isFile_then_def case_prod_beta files_upd_object files_getFileBindings)
  from same_files_advances [OF this] show ?thesis using IsFileThen by simp
next
  case (StatThen t p st)
  have "files (trap_stat_then s t p st) = files s"
    "next_file (trap_stat_then s t p st) = next_file s"
    by (simp_all add: trap_stat_then_def case_prod_beta Let_def files_upd_object
        files_getFileBindings)
  from same_files_advances [OF this] show ?thesis using StatThen by simp
next
  case (ReadModifiedTimeThen t p mt)
  have "files (trap_readModifiedTime_then s t p mt) = files s"
    "next_file (trap_readModifiedTime_then s t p mt) = next_file s"
    by (simp_all add: trap_readModifiedTime_then_def case_prod_beta files_upd_object
        files_getFileBindings)
  from same_files_advances [OF this] show ?thesis using ReadModifiedTimeThen by simp
next
  case (ReadTextHashThen t p h)
  have "files (trap_readTextHash_then s t p h) = files s"
    "next_file (trap_readTextHash_then s t p h) = next_file s"
    by (simp_all add: trap_readTextHash_then_def case_prod_beta files_upd_object
        files_getFileBindings)
  from same_files_advances [OF this] show ?thesis using ReadTextHashThen by simp
next
  case (CacheQuery p)
  with evaluateFileMethod_advances [of s p q] show ?thesis by simp
next
  case (FileAdded p st)
  then show ?thesis
    by (simp add: currentFile_added handleFileAdded_files split: option.splits)
next
  case (FileChanged p st)
  then show ?thesis by (simp add: currentFile_changed handleFileChanged_files)
next
  case (FileRemoved p)
  then show ?thesis by (simp add: currentFile_removed handleFileRemoved_files)
qed

lemma superseded_currentFile:
  "superseded s f \<longleftrightarrow> (\<exists>g. currentFile s (file_path f) = Some g \<and> file_ref f < file_ref g)"
  by (auto simp: superseded_def currentFile_def split: option.splits)

lemma step_superseded:
  assumes "wf_state s" and "superseded s f"
  shows "superseded (state_of (step s a)) f"
proof -
  from assms(2) obtain g where g: "currentFile s (file_path f) = Some g" "file_ref f < file_ref g"
    by (auto simp: superseded_currentFile)
  from wf_state_currentFile [OF assms(1) g(1)] have "file_ref g < next_file s" by simp
  with g step_currentFile [of s a "file_path f"] show ?thesis
    by (auto simp: superseded_currentFile)
qed

lemma run_superseded:
  "wf_state s \<Longrightarrow> superseded s f \<Longrightarrow> superseded (run s as) f"
  by (induction as arbitrary: s) (simp_all add: step_superseded wf_state_step)

lemma replaced_superseded:
  assumes "file_ref f < next_file s" and "file_path f = p"
    and "a = FileChanged p st \<or> a = FileRemoved p"
  shows "superseded (state_of (step s a)) f"
  using assms by (auto simp: superseded_currentFile currentFile_changed currentFile_removed)

lemma run_replaced:
  assumes "wf_state s" and "file_ref f < next_file s" and "file_path f = p"
    and "(\<exists>st. FileChanged p st \<in> set as) \<or> FileRemoved p \<in> set as"
  shows "superseded (run s as) f"
  using assms
proof (induction as arbitrary: s)
  case Nil
  then show ?case by simp
next
  case (Cons a as)
  let ?s1 = "state_of (step s a)"
  have wf1: "wf_state ?s1" using Cons.prems(1) by (rule wf_state_step)
  show ?case
  proof (cases "(\<exists>st. a = FileChanged p st) \<or> a = FileRemoved p")
    case True
    then have "superseded ?s1 f"
      using replaced_superseded [OF Cons.prems(2,3)] by blast
    from run_superseded [OF wf1 this] show ?thesis by simp
  next
    case False
    with Cons.prems(4) have rest: "(\<exists>st. FileChanged p st \<in> set as) \<or> FileRemoved p \<in> set as"
      by auto
    have "file_ref f < next_file ?s1"
      using Cons.prems(2) step_currentFile [of s a p] by simp
    from Cons.IH [OF wf1 this Cons.prems(3) rest] show ?thesis by simp
  qed
qed

lemma superseded_settle: "superseded s f \<Longrightarrow> settle s f r = NeverSettles"
  by (auto simp: superseded_def settle_def blockStaleFilesFromResolving_def
      split: io_outcome.splits)

lemma evaluateFileMethod_file:
  assumes "wf_state s" and "evaluateFileMethod s p = (f, s1)"
  shows "wf_state s1 \<and> file_path f = p \<and> file_ref f < next_file s1 \<and> currentFile s1 p = Some f"
proof -
  have s1: "s1 = snd (evaluateFileMethod s p)" and f: "f = fst (evaluateFileMethod s p)"
    using assms(2) by simp_all
  have wf1: "wf_state s1" unfolding s1 using assms(1) by (rule wf_state_evaluateFileMethod)
  have cur: "currentFile s1 p = Some f" unfolding s1 f by (rule fst_evaluateFileMethod)
  from wf_state_currentFile [OF wf1 cur] wf1 cur show ?thesis by simp
qed

lemma trap_call_file:
  assumes "wf_state s" and "trap_call s t m p = (f, s1)"
  shows "wf_state s1 \<and> file_path f = p \<and> file_ref f < next_file s1 \<and> currentFile s1 p = Some f"
proof (cases "m = IsFile")
  case True
  with assms(2) have "evaluateFileMethod s p = (f, s1)" by (simp add: trap_call_def)
  from evaluateFileMethod_file [OF assms(1) this] show ?thesis .
next
  case False
  let ?s0 = "upd_trap (ensureBindingToFile s t p) t
                (\<lambda>T. T\<lparr>triggerOnChange := (triggerOnChange T)(p \<mapsto> True)\<rparr>)"
  have wf0: "wf_state ?s0"
    using assms(1) by (simp add: wf_state_upd_trigger wf_state_ensureBindingToFile)
  from False assms(2) have "evaluateFileMethod ?s0 p = (f, s1)" by (simp add: trap_call_def)
  from evaluateFileMethod_file [OF wf0 this] show ?thesis .
qed

lemma evaluateFileMethod_current:
  "currentFile s p = Some f \<Longrightarrow> evaluateFileMethod s p = (f, s)"
  by (auto simp: currentFile_def evaluateFileMethod_def split: option.splits)

subsection \<open>The notifications of added and removed events\<close>

lemma addedTraps_iff:
  "t \<in> set (addedTraps s p ts) \<longleftrightarrow>
     t \<in> set ts \<and> (\<exists>b. bindingOf s t p = Some b \<and> b_isFile b = Some False)"
  by (auto simp: addedTraps_def split: option.splits)

lemma handleFileAdded_emitted:
  assumes "wf_state s"
  shows "\<exists>s'. handleFileAdded s p st = Returns s'
     \<and> emitted s s' = map (\<lambda>t. \<lparr>n_trap = t, n_path = p, n_cause = Added\<rparr>)
                         (rev (addedTraps s p (registered s p)))"
proof -
  let ?s1 = "case files s p of Some (Some f) \<Rightarrow> s | _ \<Rightarrow> snd (createFile s p st)"
  have wf1: "wf_state ?s1"
    using assms by (simp add: wf_state_createFile split: option.splits)
  have same: "traps ?s1 = traps s" "trapsByFile ?s1 = trapsByFile s"
    "trapTriggered ?s1 = trapTriggered s" "objects ?s1 = objects s"
    by (simp_all add: createFile_def Let_def split: option.splits)
  have a: "addedTraps ?s1 p ts = addedTraps s p ts" for ts
    using same(1,4) by (simp add: addedTraps_def bindingOf_def bindingRef_def)
  have h: "handleFileAdded s p st =
      (case trapsByFile s p of None \<Rightarrow> Returns ?s1
       | Some ts \<Rightarrow> if ts = [] then Returns ?s1
                    else triggerTraps ?s1 (addedTraps s p ts) p Added)"
    unfolding handleFileAdded_def Let_def same(2) a ..
  show ?thesis
  proof (cases "trapsByFile s p")
    case None
    then show ?thesis using same h by (simp add: registered_def emitted_def addedTraps_def)
  next
    case (Some ts)
    show ?thesis
    proof (cases "ts = []")
      case True
      then show ?thesis using Some same h
        by (simp add: registered_def emitted_def addedTraps_def)
    next
      case False
      from triggerTraps_returns [OF wf1, of "addedTraps s p ts" p Added]
      obtain s' where s': "triggerTraps ?s1 (addedTraps s p ts) p Added = Returns s'"
        and tr: "trapTriggered s' = trapTriggered ?s1 @
            map (\<lambda>t. \<lparr>n_trap = t, n_path = p, n_cause = Added\<rparr>) (rev (addedTraps s p ts))"
        by blast
      have "emitted s s' = map (\<lambda>t. \<lparr>n_trap = t, n_path = p, n_cause = Added\<rparr>)
          (rev (addedTraps s p ts))"
        using tr same by (simp add: emitted_def)
      moreover have "handleFileAdded s p st = Returns s'"
        using s' Some False h by simp
      ultimately show ?thesis using Some by (simp add: registered_def)
    qed
  qed
qed

text \<open>
  When every trap in the set of the path has bindings for it, the loop of
  \<open>_handleFileRemoved\<close> chooses the traps whose binding recorded \<open>isFile = true\<close>.
\<close>

lemma removedTraps_bound:
  "\<forall>t \<in> set ts. bindingOf s t p \<noteq> None \<Longrightarrow>
   removedTraps s p ts =
     Inr (filter (\<lambda>t. \<exists>b. bindingOf s t p = Some b \<and> b_isFile b = Some True) ts)"
  by (induction ts) (auto split: option.splits)

lemma removedTraps_unbound:
  "t \<in> set ts \<Longrightarrow> bindingOf s t p = None \<Longrightarrow> removedTraps s p ts = Inl TypeError"
proof (induction ts)
  case Nil
  then show ?case by simp
next
  case (Cons a ts)
  show ?case
  proof (cases "bindingOf s a p")
    case None
    then show ?thesis by simp
  next
    case (Some b)
    with Cons.prems have "t \<in> set ts" by auto
    from Cons.IH [OF this Cons.prems(2)] Some show ?thesis by simp
  qed
qed

lemma handleFileRemoved_emitted:
  assumes "wf_state s" and "\<forall>t \<in> set (registered s p). bindingOf s t p \<noteq> None"
  shows "\<exists>s'. handleFileRemoved s p = Returns s'
     \<and> emitted s s' = map (\<lambda>t. \<lparr>n_trap = t, n_path = p, n_cause = Removed\<rparr>)
         (rev (filter (\<lambda>t. \<exists>b. bindingOf s t p = Some b \<and> b_isFile b = Some True)
                 (registered s p)))"
proof -
  let ?s1 = "setIsFile (snd (createFile (removeFile s p) p None))
               (fst (createFile (removeFile s p) p None)) False"
  let ?sel = "\<lambda>ts. filter (\<lambda>t. \<exists>b. bindingOf s t p = Some b \<and> b_isFile b = Some True) ts"
  have wf1: "wf_state ?s1" using assms(1) by (rule wf_state_removed_file)
  have same: "traps ?s1 = traps s" "trapsByFile ?s1 = trapsByFile s"
    "trapTriggered ?s1 = trapTriggered s" "objects ?s1 = objects s"
    by (simp_all add: createFile_def removeFile_def setIsFile_def Let_def)
  have b: "bindingOf ?s1 t p = bindingOf s t p" for t
    using same(1,4) by (rule bindingOf_cong)
  have h: "handleFileRemoved s p =
      (case trapsByFile s p of None \<Rightarrow> Returns ?s1
       | Some ts \<Rightarrow> if ts = [] then Returns ?s1
                    else (case removedTraps ?s1 p ts of
                            Inl e \<Rightarrow> Throws e ?s1
                          | Inr r \<Rightarrow> triggerTraps ?s1 r p Removed))"
    unfolding handleFileRemoved_def Let_def case_prod_beta same(2) ..
  show ?thesis
  proof (cases "trapsByFile s p")
    case None
    then show ?thesis using same h by (simp add: registered_def emitted_def)
  next
    case (Some ts)
    show ?thesis
    proof (cases "ts = []")
      case True
      then show ?thesis using Some same h by (simp add: registered_def emitted_def)
    next
      case False
      have "\<forall>t \<in> set ts. bindingOf ?s1 t p \<noteq> None"
        using assms(2) Some by (simp add: registered_def b)
      from removedTraps_bound [OF this]
      have r: "removedTraps ?s1 p ts = Inr (?sel ts)" by (simp add: b)
      from triggerTraps_returns [OF wf1, of "?sel ts" p Removed]
      obtain s' where s': "triggerTraps ?s1 (?sel ts) p Removed = Returns s'"
        and tr: "trapTriggered s' = trapTriggered ?s1 @
            map (\<lambda>t. \<lparr>n_trap = t, n_path = p, n_cause = Removed\<rparr>) (rev (?sel ts))"
        by blast
      have "emitted s s' = map (\<lambda>t. \<lparr>n_trap = t, n_path = p, n_cause = Removed\<rparr>)
          (rev (?sel ts))"
        using tr same by (simp add: emitted_def)
      moreover have "handleFileRemoved s p = Returns s'"
        using s' Some False h r by simp
      ultimately show ?thesis using Some by (simp add: registered_def)
    qed
  qed
qed

lemma handleFileRemoved_unbound:
  assumes "\<exists>t \<in> set (registered s p). bindingOf s t p = None"
  shows "thrown (handleFileRemoved s p) = Some TypeError
     \<and> emitted s (state_of (handleFileRemoved s p)) = []"
proof -
  let ?s1 = "setIsFile (snd (createFile (removeFile s p) p None))
               (fst (createFile (removeFile s p) p None)) False"
  have same: "traps ?s1 = traps s" "trapsByFile ?s1 = trapsByFile s"
    "trapTriggered ?s1 = trapTriggered s" "objects ?s1 = objects s"
    by (simp_all add: createFile_def removeFile_def setIsFile_def Let_def)
  have b: "bindingOf ?s1 t p = bindingOf s t p" for t
    using same(1,4) by (rule bindingOf_cong)
  from assms obtain t where t: "t \<in> set (registered s p)" "bindingOf s t p = None"
    by blast
  then obtain ts where ts0: "trapsByFile s p = Some ts" and mem: "t \<in> set ts"
    by (cases "trapsByFile s p") (auto simp: registered_def)
  from mem have "ts \<noteq> []" by auto
  note ts = ts0 this
  have "bindingOf ?s1 t p = None" using t(2) by (simp add: b)
  from removedTraps_unbound [OF mem this] have r: "removedTraps ?s1 p ts = Inl TypeError" .
  have "handleFileRemoved s p = Throws TypeError ?s1"
    unfolding handleFileRemoved_def Let_def case_prod_beta same(2) using ts r by simp
  then show ?thesis using same by (simp add: emitted_def)
qed

section \<open>The claims\<close>

subsection \<open>Recording of bindings\<close>




text \<open>
  Two traps that hold one binding object. In \<open>shared_binding\<close> the dependencies handed
  to \<open>rehydrateTrap\<close> hold the binding object of trap 0 for \<open>lib\<close>, so trap 1 holds
  that object too, and the callback of its \<open>stat\<close> writes the binding that trap 0
  recorded.
\<close>

lemma rehydrated_trap_shares_binding:
  "describeDependencies (run init (take 3 shared_binding)) 0 = [(''lib'', 0)]
   \<and> bindingOf (run init (take 3 shared_binding)) 0 ''lib''
       = Some \<lparr>b_isFile = Some False, b_modifiedTime = None, b_textHash = None\<rparr>
   \<and> bindingRef (run init shared_binding) 1 ''lib'' = Some 0
   \<and> writesIsFile (run init (take 5 shared_binding)) 0 (StatThen 1 ''lib'' dir_stat)
   \<and> bindingOf (run init shared_binding) 0 ''lib''
       = Some \<lparr>b_isFile = Some True, b_modifiedTime = Some 5, b_textHash = None\<rparr>"
  by code_simp

subsection \<open>A trap is triggered once\<close>

text \<open>
  C2. The trap of \<open>pending_stat\<close> is notified twice: \<open>onFileRemoved('a.js')\<close> triggers
  it and deletes it from the set of \<open>a.js\<close>, the only path of its bindings; it stays
  in the set of \<open>b.js\<close>, and \<open>onFileChanged('b.js', stat)\<close> triggers it again.
\<close>

theorem trap_triggered_twice:
  "trapTriggered (run init pending_stat) = []
   \<and> trapTriggered (run (run init pending_stat)
        [FileRemoved ''a.js'', FileChanged ''b.js'' (Some file_stat)])
      = [\<lparr>n_trap = 0, n_path = ''a.js'', n_cause = Removed\<rparr>,
         \<lparr>n_trap = 0, n_path = ''b.js'', n_cause = Changed\<rparr>]"
  by code_simp

subsection \<open>Detaching before notifying\<close>

text \<open>
  C3. Both traps of \<open>two_traps_pending_stat\<close> qualify for \<open>onFileRemoved('a.js')\<close>.
  The call returns, the notifications are those of trap 1 and then of trap 0, and the
  set of \<open>a.js\<close> is empty; but trap 1, which is bound to \<open>b.js\<close>, is still in the set
  of \<open>b.js\<close>.
\<close>

theorem triggered_trap_stays_bound:
  "registered (run init two_traps_pending_stat) ''a.js'' = [0, 1]
   \<and> boundFiles (traps (run init two_traps_pending_stat) 1) ''b.js'' = Some True
   \<and> thrown (handleFileRemoved (run init two_traps_pending_stat) ''a.js'') = None
   \<and> emitted (run init two_traps_pending_stat)
        (state_of (handleFileRemoved (run init two_traps_pending_stat) ''a.js''))
      = [\<lparr>n_trap = 1, n_path = ''a.js'', n_cause = Removed\<rparr>,
         \<lparr>n_trap = 0, n_path = ''a.js'', n_cause = Removed\<rparr>]
   \<and> registered (state_of (handleFileRemoved (run init two_traps_pending_stat) ''a.js''))
        ''a.js'' = []
   \<and> registered (state_of (handleFileRemoved (run init two_traps_pending_stat) ''a.js''))
        ''b.js'' = [1]"
  by code_simp

subsection \<open>Changed events\<close>

text \<open>
  C4. In a state the cache can reach, \<open>onFileChanged(p, stat)\<close> returns, and of the
  traps in the reverse index of \<open>p\<close> it notifies exactly those that have
  \<open>triggerOnChange[p]\<close> or whose binding for \<open>p\<close> holds a modified time or a text hash.
  A trap that has only an \<open>isFile\<close> binding for \<open>p\<close> is not notified.
\<close>

theorem handleFileChanged_fires:
  assumes "s = run init as"
  shows "\<exists>s'. handleFileChanged s p st = Returns s'
     \<and> (\<forall>t \<in> set (registered s p).
          (\<lparr>n_trap = t, n_path = p, n_cause = Changed\<rparr> \<in> set (emitted s s')
           \<longleftrightarrow> (triggerOnChange (traps s t) p = Some True
               \<or> (\<exists>b. bindingOf s t p = Some b
                      \<and> (b_modifiedTime b \<noteq> None \<or> b_textHash b \<noteq> None))))
        \<and> (triggerOnChange (traps s t) p \<noteq> Some True
            \<and> (\<exists>b. bindingOf s t p = Some b \<and> b_isFile b \<noteq> None
                   \<and> b_modifiedTime b = None \<and> b_textHash b = None)
            \<longrightarrow> \<lparr>n_trap = t, n_path = p, n_cause = Changed\<rparr> \<notin> set (emitted s s')))"
proof -
  have "wf_state s" using assms by (simp add: wf_state_reachable)
  from handleFileChanged_emitted [OF this, of p st]
  obtain s' where r: "handleFileChanged s p st = Returns s'"
    and e: "emitted s s' = map (\<lambda>t. \<lparr>n_trap = t, n_path = p, n_cause = Changed\<rparr>)
                         (rev (changedTraps s p (registered s p)))"
    by blast
  have m: "\<lparr>n_trap = t, n_path = p, n_cause = Changed\<rparr> \<in> set (emitted s s')
     \<longleftrightarrow> t \<in> set (changedTraps s p (registered s p))" for t
    unfolding e by auto
  show ?thesis
    using r by (auto simp: m changedTraps_iff)
qed

theorem handleFileChanged_fires_witness:
  "registered (run init two_observers) ''a.js'' = [0, 1]
   \<and> (\<exists>s'. handleFileChanged (run init two_observers) ''a.js''
              (Some \<lparr>st_isFile = True, st_mtime = 9\<rparr>) = Returns s'
         \<and> \<lparr>n_trap = 1, n_path = ''a.js'', n_cause = Changed\<rparr>
              \<in> set (emitted (run init two_observers) s')
         \<and> \<lparr>n_trap = 0, n_path = ''a.js'', n_cause = Changed\<rparr>
              \<notin> set (emitted (run init two_observers) s'))"
proof -
  let ?s = "run init two_observers"
  have reg: "registered ?s ''a.js'' = [0, 1]" by code_simp
  have t0: "triggerOnChange (traps ?s 0) ''a.js'' = None" by code_simp
  have b0: "bindingOf ?s 0 ''a.js'' =
      Some \<lparr>b_isFile = Some True, b_modifiedTime = None, b_textHash = None\<rparr>" by code_simp
  have t1: "triggerOnChange (traps ?s 1) ''a.js'' = Some True" by code_simp
  from handleFileChanged_fires [OF refl, of two_observers "''a.js''"
      "Some \<lparr>st_isFile = True, st_mtime = 9\<rparr>"]
  show ?thesis using reg t0 b0 t1 by auto
qed

subsection \<open>Removed and added events\<close>

text \<open>
  C5. In \<open>observer_and_pending\<close> trap 0 is in the reverse index of \<open>a.js\<close> and its
  binding recorded \<open>isFile = true\<close>; \<open>onFileRemoved('a.js')\<close> throws on trap 1, which
  has no binding, and notifies no trap.
\<close>

theorem handleFileRemoved_skips_observer:
  "registered (run init observer_and_pending) ''a.js'' = [0, 1]
   \<and> map_option b_isFile (bindingOf (run init observer_and_pending) 0 ''a.js'')
       = Some (Some True)
   \<and> thrown (handleFileRemoved (run init observer_and_pending) ''a.js'') = Some TypeError
   \<and> emitted (run init observer_and_pending)
        (state_of (handleFileRemoved (run init observer_and_pending) ''a.js'')) = []"
  by code_simp

subsection \<open>Replacement of the file\<close>




text \<open>
  The case left aside above. After \<open>onFileRemoved('a.js')\<close> the cache holds
  \<open>removed_file\<close>, whose \<open>isFile\<close> cell is pre-seeded to false; a following
  \<open>onFileAdded('a.js', stat)\<close> finds a file stored and creates none, so the cache
  still holds \<open>removed_file\<close> and the stat of the event is dropped.
\<close>

lemma handleFileAdded_after_removed:
  "currentFile (run init [FileRemoved ''a.js'']) ''a.js'' = Some removed_file
   \<and> currentFile (run init [FileRemoved ''a.js'', FileAdded ''a.js'' (Some file_stat)]) ''a.js''
       = Some removed_file"
  by code_simp

subsection \<open>The staleness barrier\<close>

text \<open>
  C7. A query is made in a reachable state, on the cache (\<open>evaluateFileMethod\<close>) or
  through a trap (\<open>trap_call\<close>); \<open>f\<close> is the file it runs on. If, while the query is in
  flight, the blocks that run include \<open>onFileChanged(p, ...)\<close> or \<open>onFileRemoved(p)\<close>,
  then whatever the storage backend answers afterwards, a value or an error, the promise
  of the query never settles.
\<close>

theorem staleness_barrier:
  assumes "s0 = run init as0"
    and "evaluateFileMethod s0 p = (f, s1) \<or> trap_call s0 t m p = (f, s1)"
    and "(\<exists>st. FileChanged p st \<in> set as) \<or> FileRemoved p \<in> set as"
  shows "settle (run s1 as) f r = NeverSettles"
proof -
  have wf0: "wf_state s0" using assms(1) by (simp add: wf_state_reachable)
  have "wf_state s1 \<and> file_path f = p \<and> file_ref f < next_file s1 \<and> currentFile s1 p = Some f"
    using assms(2) evaluateFileMethod_file [OF wf0] trap_call_file [OF wf0] by blast
  then have "superseded (run s1 as) f"
    using run_replaced [of s1 f p as] assms(3) by blast
  then show ?thesis by (rule superseded_settle)
qed

theorem staleness_barrier_witness:
  "evaluateFileMethod (run init known_file) ''a.js'' = (first_file, run init known_file)
   \<and> settle (run init known_file) first_file (IOValue ''bytes'') = Resolved ''bytes''
   \<and> settle (run (run init known_file) [FileRemoved ''a.js'']) first_file (IOValue ''bytes'')
       = NeverSettles
   \<and> settle (run (run init known_file) [FileRemoved ''a.js'']) first_file
         (IOError ''ENOENT'' :: string io_outcome) = NeverSettles"
proof -
  have q: "evaluateFileMethod (run init known_file) ''a.js'' = (first_file, run init known_file)"
  proof (rule evaluateFileMethod_current)
    show "currentFile (run init known_file) ''a.js'' = Some first_file" by code_simp
  qed
  have now: "settle (run init known_file) first_file (IOValue ''bytes'') = Resolved ''bytes''"
    by code_simp
  have "settle (run (run init known_file) [FileRemoved ''a.js'']) first_file r = NeverSettles"
    for r :: "string io_outcome"
    using staleness_barrier [OF refl, of known_file "''a.js''" first_file "run init known_file"
        0 IsFile "[FileRemoved ''a.js'']" r] q
    by simp
  with q now show ?thesis by simp
qed

subsection \<open>Changed nodes\<close>

text \<open>
  C8. The claim asks for every key held by both snapshots with different values to be in
  \<open>changedNodes\<close>, falsy values of \<open>from\<close> included. Here \<open>from = {a: 0}\<close> and
  \<open>to = {a: 1}\<close>: the key \<open>a\<close> is in both and its value differs, and \<open>getChangedNodes\<close>
  does not report it, since the presence test is the truthiness of \<open>from.get(key)\<close>.
\<close>

theorem getChangedNodes_falsy_from:
  "has [(''a'', JNum 0)] ''a'' \<and> has [(''a'', JNum 1)] ''a''
   \<and> \<not> is_imm (get [(''a'', JNum 1)] ''a'') (get [(''a'', JNum 0)] ''a'')
   \<and> getChangedNodes (Diff [(''a'', JNum 0)] [(''a'', JNum 1)]) = []"
  by (simp add: has_def get_def is_imm_def getChangedNodes_def Diff_def)

subsection \<open>Merging diffs\<close>

text \<open>
  C9. \<open>mergeDiffs d1 d2\<close> is the diff from \<open>d1\<close>'s first snapshot to \<open>d2\<close>'s last one;
  merging is therefore associative; and a key that is neither in \<open>d1.from\<close> nor in
  \<open>d2.to\<close> (a node added and removed in between) is in none of the new, pruned and
  changed nodes of the merged diff.
\<close>

theorem mergeDiffs_lossy:
  "mergeDiffs d1 d2 = Diff (diff_from d1) (diff_to d2)
   \<and> mergeDiffs (mergeDiffs d1 d2) d3 = mergeDiffs d1 (mergeDiffs d2 d3)
   \<and> (\<not> has (diff_from d1) k \<and> \<not> has (diff_to d2) k \<longrightarrow>
        k \<notin> set (getNewNodesFromDiff (mergeDiffs d1 d2))
      \<and> k \<notin> set (getPrunedNodesFromDiff (mergeDiffs d1 d2))
      \<and> k \<notin> set (getChangedNodes (mergeDiffs d1 d2)))"
proof -
  have lossy: "k \<notin> set (getNewNodesFromDiff (mergeDiffs d1 d2))
      \<and> k \<notin> set (getPrunedNodesFromDiff (mergeDiffs d1 d2))
      \<and> k \<notin> set (getChangedNodes (mergeDiffs d1 d2))"
    if "\<not> has (diff_from d1) k" and "\<not> has (diff_to d2) k"
  proof -
    have "k \<notin> fst ` set (diff_to d2)" "k \<notin> fst ` set (diff_from d1)"
      using that by (simp_all add: has_def)
    then show ?thesis
      by (auto simp: getNewNodesFromDiff_def getPrunedNodesFromDiff_def getChangedNodes_def
          mergeDiffs_def Diff_def image_iff)
  qed
  have "mergeDiffs (mergeDiffs d1 d2) d3 = mergeDiffs d1 (mergeDiffs d2 d3)"
    by (simp add: mergeDiffs_def Diff_def)
  with lossy show ?thesis
    by (simp add: mergeDiffs_def)
qed

theorem mergeDiffs_lossy_witness:
  "mergeDiffs (Diff [(''a'', JNum 1)] [(''a'', JNum 1), (''b'', JNum 2)])
              (Diff [(''a'', JNum 1), (''b'', JNum 2)] [(''a'', JNum 5)])
     = Diff [(''a'', JNum 1)] [(''a'', JNum 5)]
   \<and> \<not> has [(''a'', JNum 1)] ''b'' \<and> \<not> has [(''a'', JNum 5)] ''b''
   \<and> has [(''a'', JNum 1), (''b'', JNum 2)] ''b''
   \<and> ''b'' \<notin> set (getNewNodesFromDiff
        (mergeDiffs (Diff [(''a'', JNum 1)] [(''a'', JNum 1), (''b'', JNum 2)])
                    (Diff [(''a'', JNum 1), (''b'', JNum 2)] [(''a'', JNum 5)])))
   \<and> ''b'' \<notin> set (getPrunedNodesFromDiff
        (mergeDiffs (Diff [(''a'', JNum 1)] [(''a'', JNum 1), (''b'', JNum 2)])
                    (Diff [(''a'', JNum 1), (''b'', JNum 2)] [(''a'', JNum 5)])))
   \<and> ''b'' \<notin> set (getChangedNodes
        (mergeDiffs (Diff [(''a'', JNum 1)] [(''a'', JNum 1), (''b'', JNum 2)])
                    (Diff [(''a'', JNum 1), (''b'', JNum 2)] [(''a'', JNum 5)])))"
  using mergeDiffs_lossy
    [of "Diff [(''a'', JNum 1)] [(''a'', JNum 1), (''b'', JNum 2)]"
        "Diff [(''a'', JNum 1), (''b'', JNum 2)] [(''a'', JNum 5)]"
        "Diff [(''a'', JNum 5)] [(''a'', JNum 5)]" "''b''"]
  by (simp add: has_def Diff_def mergeDiffs_def)

subsection \<open>The removed handler on a trap without bindings\<close>

text \<open>
  C10. In \<open>stat_in_flight\<close> the trap is in the reverse index of \<open>a.js\<close> and has no
  binding for it; \<open>onFileRemoved('a.js')\<close> throws.
\<close>

theorem handleFileRemoved_throws:
  "registered (run init stat_in_flight) ''a.js'' = [0]
   \<and> bindingOf (run init stat_in_flight) 0 ''a.js'' = None
   \<and> thrown (handleFileRemoved (run init stat_in_flight) ''a.js'') = Some TypeError"
  by code_simp

end
